theory Spec2Isabelle
  imports Main "HOL-Library.Sublist"
begin

section \<open>The memory store of agent.py\<close>

text \<open>
  The memory lifecycle of \<^verbatim>\<open>agent.py\<close>: \<^verbatim>\<open>load_memory_file\<close>, \<^verbatim>\<open>save_memory_file\<close>,
  \<^verbatim>\<open>add_memory\<close>, \<^verbatim>\<open>summarize_old_memories\<close> and \<^verbatim>\<open>get_memory_summary\<close>.
  The module-level dictionary \<^verbatim>\<open>persistent_memories\<close> is threaded through as explicit
  state. Everything the functions read from outside the program is an input of the model:
  the two readings of \<^verbatim>\<open>datetime.utcnow()\<close>, the behaviour of the optional \<^verbatim>\<open>mem0\<close>
  client, and the outcome of opening and decoding the memory file. Calls to \<^verbatim>\<open>logging\<close>
  have no effect on the state and are left out.
\<close>

subsection \<open>Data\<close>

text \<open>
  A timestamp is the reading of the clock, counted in microseconds, which is the resolution
  of \<^verbatim>\<open>datetime.utcnow()\<close>; the source stores its \<^verbatim>\<open>isoformat()\<close> rendering.
\<close>

type_synonym timestamp = nat

record entry =
  "text" :: string
  timestamp :: timestamp

type_synonym memories = "string \<rightharpoonup> entry list"

datatype py_error =
    KeyError string
  | JSONDecodeError
  | UnicodeDecodeError
  | OSError
  | OtherException string

text \<open>
  The \<^verbatim>\<open>mem0\<close> client as it behaves during one call: both methods either return or
  raise. \<^verbatim>\<open>mem0_summarize\<close> returns the text that the f-string of line 140 renders.
\<close>

record mem0_client =
  mem0_add :: "string \<Rightarrow> string \<Rightarrow> py_error + unit"
  mem0_summarize :: "string \<Rightarrow> string \<Rightarrow> py_error + string"

text \<open>
  What one call of \<^verbatim>\<open>add_memory\<close> reads from its surroundings: the client (\<open>None\<close> when
  the package is missing), the clock at line 116 and the clock at line 140. The second
  reading is taken only when compaction runs.
\<close>

record env =
  mem0 :: "mem0_client option"
  now_append :: timestamp
  now_compact :: timestamp

text \<open>
  The state: the dictionary, and the arguments of the calls of \<^verbatim>\<open>save_memory_file\<close> made
  so far, oldest first.
\<close>

record world =
  persistent_memories :: memories
  saved :: "memories list"

definition user_name :: string where
  "user_name = ''Kinga''"

definition init_world :: world where
  "init_world = \<lparr>persistent_memories = Map.empty, saved = []\<rparr>"

subsection \<open>Python's list slices and \<^verbatim>\<open>str.join\<close>\<close>

text \<open>\<^verbatim>\<open>xs[:j]\<close>: a negative bound counts from the end, and both are clipped to the list.\<close>

definition slice_to :: "'a list \<Rightarrow> int \<Rightarrow> 'a list" where
  "slice_to xs j =
     (let n = int (length xs);
          k = (if j < 0 then max 0 (n + j) else min j n)
      in take (nat k) xs)"

text \<open>\<^verbatim>\<open>xs[i:]\<close>.\<close>

definition slice_from :: "'a list \<Rightarrow> int \<Rightarrow> 'a list" where
  "slice_from xs i =
     (let n = int (length xs);
          k = (if i < 0 then max 0 (n + i) else min i n)
      in drop (nat k) xs)"

fun join :: "string \<Rightarrow> string list \<Rightarrow> string" where
  "join sep [] = []"
| "join sep [x] = x"
| "join sep (x # y # ys) = x @ sep @ join sep (y # ys)"

definition newline :: string where
  "newline = [CHR 0x0A]"

subsection \<open>Loading and saving\<close>

datatype json =
    JNull
  | JBool bool
  | JInt int
  | JFloat string
  | JString string
  | JArray "json list"
  | JObject "(string \<times> json) list"

text \<open>
  \<^verbatim>\<open>load_memory_file\<close>, lines 84 to 91. The first argument is \<^verbatim>\<open>os.path.exists\<close>, the
  second the outcome of the \<^verbatim>\<open>with open(...)\<close> block, that is of opening the file and of
  \<^verbatim>\<open>json.load\<close>: the decoded value, or the exception raised. Only
  \<^verbatim>\<open>json.JSONDecodeError\<close> is caught.
\<close>

definition load_memory_file :: "bool \<Rightarrow> py_error + json \<Rightarrow> py_error + json" where
  "load_memory_file file_exists decoded =
     (if file_exists then
        (case decoded of
           Inr v \<Rightarrow> Inr v
         | Inl JSONDecodeError \<Rightarrow> Inr (JObject [])
         | Inl e \<Rightarrow> Inl e)
      else Inr (JObject []))"

text \<open>
  \<^verbatim>\<open>save_memory_file\<close>, lines 93 to 98. A failed write is logged and swallowed, so the call
  returns whatever the disk does; the model records what was handed to it.
\<close>

definition save_memory_file :: "memories \<Rightarrow> world \<Rightarrow> world" where
  "save_memory_file memories w = w\<lparr>saved := saved w @ [memories]\<rparr>"

subsection \<open>Compaction, append and the read path\<close>

text \<open>The summary text of lines 129 to 137.\<close>

definition summary_text :: "mem0_client option \<Rightarrow> string \<Rightarrow> string \<Rightarrow> string" where
  "summary_text client combined_text user_id =
     (case client of
        Some c \<Rightarrow>
          (case mem0_summarize c combined_text user_id of
             Inr s \<Rightarrow> s
           | Inl e \<Rightarrow> '' (failed to summarize older memories) '')
      | None \<Rightarrow> ''Past conversations and interactions'')"

text \<open>
  \<^verbatim>\<open>summarize_old_memories\<close>, lines 125 to 143. Indexing the dictionary with a missing key
  raises \<^verbatim>\<open>KeyError\<close>.
\<close>

definition summarize_old_memories :: "env \<Rightarrow> string \<Rightarrow> memories \<Rightarrow> py_error + memories" where
  "summarize_old_memories e user_id pm =
     (case pm user_id of
        None \<Rightarrow> Inl (KeyError user_id)
      | Some log \<Rightarrow>
          (let old_memories = slice_to log (- 20);
               combined_text = join '' '' (map text old_memories);
               summary = summary_text (mem0 e) combined_text user_id
           in Inr (pm(user_id \<mapsto>
                 [\<lparr>text = ''Summary of past: '' @ summary, timestamp = now_compact e\<rparr>]
                 @ slice_from log (- 20)))))"

text \<open>
  Lines 104 to 108: the text is forwarded to the client when there is one. Whether the call
  returns or raises, \<^verbatim>\<open>add_memory\<close> goes on in the same way; the result says whether the
  client took the text.
\<close>

definition forward_to_mem0 :: "mem0_client option \<Rightarrow> string \<Rightarrow> bool" where
  "forward_to_mem0 client txt =
     (case client of
        None \<Rightarrow> False
      | Some c \<Rightarrow> (case mem0_add c txt user_name of Inl e \<Rightarrow> False | Inr u \<Rightarrow> True))"

text \<open>\<^verbatim>\<open>add_memory\<close>, lines 102 to 123.\<close>

definition add_memory :: "env \<Rightarrow> string \<Rightarrow> world \<Rightarrow> py_error + world" where
  "add_memory e txt w =
     (let forwarded = forward_to_mem0 (mem0 e) txt;
          pm0 = persistent_memories w;
          pm1 = (if pm0 user_name = None then pm0(user_name \<mapsto> []) else pm0)
      in case pm1 user_name of
           None \<Rightarrow> Inl (KeyError user_name)
         | Some log \<Rightarrow>
             (let pm2 = pm1(user_name \<mapsto> log @ [\<lparr>text = txt, timestamp = now_append e\<rparr>]);
                  compacted =
                    (if length (log @ [\<lparr>text = txt, timestamp = now_append e\<rparr>]) > 50
                     then summarize_old_memories e user_name pm2
                     else Inr pm2)
              in case compacted of
                   Inl err \<Rightarrow> Inl err
                 | Inr pm3 \<Rightarrow> Inr (save_memory_file pm3 (w\<lparr>persistent_memories := pm3\<rparr>))))"

text \<open>\<^verbatim>\<open>get_memory_summary\<close>, lines 145 to 150.\<close>

definition get_memory_summary :: "world \<Rightarrow> string" where
  "get_memory_summary w =
     (let file_memories = (case persistent_memories w user_name of None \<Rightarrow> [] | Some l \<Rightarrow> l);
          recent = map text (slice_from file_memories (- 5))
      in if recent = [] then ''No past memories yet.''
         else join newline (map (\<lambda>m. ''- '' @ m) recent))"

subsection \<open>Sequences of appends\<close>

text \<open>
  The callers (\<^verbatim>\<open>on_message\<close>, \<^verbatim>\<open>chat_endpoint\<close>) call \<^verbatim>\<open>add_memory\<close> one text after the
  other; an exception would end the sequence.
\<close>

fun run :: "(env \<times> string) list \<Rightarrow> world \<Rightarrow> py_error + world" where
  "run [] w = Inr w"
| "run ((e, txt) # cs) w =
     (case add_memory e txt w of Inl err \<Rightarrow> Inl err | Inr w' \<Rightarrow> run cs w')"

text \<open>
  Reading the user's log, \<^verbatim>\<open>persistent_memories.get(user_name, [])\<close> of lines 146, 294
  and 301, and the entry an append creates.
\<close>

definition log_of :: "world \<Rightarrow> entry list" where
  "log_of w = (case persistent_memories w user_name of None \<Rightarrow> [] | Some l \<Rightarrow> l)"

definition entry_of :: "env \<times> string \<Rightarrow> entry" where
  "entry_of c = \<lparr>text = snd c, timestamp = now_append (fst c)\<rparr>"

text \<open>
  The clock readings of a sequence of calls, in call order: for each call the reading of
  line 116 and then the reading of line 140, which the call takes only when it compacts.
\<close>

definition readings :: "(env \<times> string) list \<Rightarrow> timestamp list" where
  "readings cs = concat (map (\<lambda>c. [now_append (fst c), now_compact (fst c)]) cs)"

text \<open>The line feeds of a string, and its number of lines: one more.\<close>

definition feeds :: "string \<Rightarrow> nat" where
  "feeds s = length (filter (\<lambda>c. c = CHR 0x0A) s)"

definition line_count :: "string \<Rightarrow> nat" where
  "line_count s = Suc (feeds s)"

subsection \<open>What an append does to the log\<close>

text \<open>
  The effect of \<^verbatim>\<open>add_memory\<close> on the user's log, written with \<open>take\<close> and \<open>drop\<close>;
  \<open>add_memory_eq\<close> below proves that the function above computes it.
\<close>

definition summary_entry :: "env \<Rightarrow> entry list \<Rightarrow> entry" where
  "summary_entry e log =
     \<lparr>text = ''Summary of past: '' @
        summary_text (mem0 e) (join '' '' (map text (take (length log - 20) log))) user_name,
      timestamp = now_compact e\<rparr>"

definition appended :: "env \<Rightarrow> string \<Rightarrow> entry list \<Rightarrow> entry list" where
  "appended e txt log =
     (let log' = log @ [\<lparr>text = txt, timestamp = now_append e\<rparr>]
      in if length log' > 50 then summary_entry e log' # drop (length log' - 20) log' else log')"

subsection \<open>Scenarios\<close>

text \<open>
  A clock that ticks once between any two readings, with no client: the \<open>i\<close>-th call reads
  \<open>2 * i\<close> when it appends and \<open>2 * i + 1\<close> when it compacts.
\<close>

definition tick_env :: "nat \<Rightarrow> env" where
  "tick_env i = \<lparr>mem0 = None, now_append = 2 * i, now_compact = 2 * i + 1\<rparr>"

text \<open>Python's \<^verbatim>\<open>str\<close> of a natural number, and the text \<^verbatim>\<open>"m" + str(i)\<close>.\<close>

fun decimal :: "nat \<Rightarrow> string" where
  "decimal n =
     (if n < 10 then [''0123456789'' ! n]
      else decimal (n div 10) @ [''0123456789'' ! (n mod 10)])"

definition m_text :: "nat \<Rightarrow> string" where
  "m_text i = ''m'' @ decimal i"

text \<open>A client that returns the text it is given, and one that is unreachable.\<close>

definition echo_client :: mem0_client where
  "echo_client = \<lparr>mem0_add = (\<lambda>t u. Inr ()), mem0_summarize = (\<lambda>t u. Inr t)\<rparr>"

definition failing_client :: mem0_client where
  "failing_client =
     \<lparr>mem0_add = (\<lambda>t u. Inl (OtherException ''connection refused'')),
      mem0_summarize = (\<lambda>t u. Inl (OtherException ''connection refused''))\<rparr>"

text \<open>A store with six entries.\<close>

definition six_world :: world where
  "six_world =
     \<lparr>persistent_memories = [user_name \<mapsto>
        [\<lparr>text = ''m0'', timestamp = 0\<rparr>, \<lparr>text = ''m1'', timestamp = 1\<rparr>,
         \<lparr>text = ''m2'', timestamp = 2\<rparr>, \<lparr>text = ''m3'', timestamp = 3\<rparr>,
         \<lparr>text = ''m4'', timestamp = 4\<rparr>, \<lparr>text = ''m5'', timestamp = 5\<rparr>]],
      saved = []\<rparr>"

text \<open>
  A store as it is 29 appends after a first compaction, the summary entry and 49 entries
  behind it, the summary being one that a client returned; and a call whose client
  returns the text it is given.
\<close>

definition jazz_world :: world where
  "jazz_world =
     \<lparr>persistent_memories = [user_name \<mapsto>
        \<lparr>text = ''Summary of past: likes jazz'', timestamp = 101\<rparr>
        # map (\<lambda>i. \<lparr>text = m_text i, timestamp = 2 * i\<rparr>) [31..<80]],
      saved = []\<rparr>"

definition echo_env :: env where
  "echo_env = \<lparr>mem0 = Some echo_client, now_append = 160, now_compact = 161\<rparr>"

text \<open>A store whose only entry has a text of six lines.\<close>

definition multiline_world :: world where
  "multiline_world =
     \<lparr>persistent_memories = [user_name \<mapsto>
        [\<lparr>text = [CHR ''a'', CHR 0x0A, CHR ''b'', CHR 0x0A, CHR ''c'', CHR 0x0A,
                  CHR ''d'', CHR 0x0A, CHR ''e'', CHR 0x0A, CHR ''f''],
          timestamp = 0\<rparr>]],
      saved = []\<rparr>"

text \<open>
  A store with the 50 entries \<^verbatim>\<open>m0\<close> to \<^verbatim>\<open>m49\<close>, a call whose client is unreachable,
  and the 51 appends of \<^verbatim>\<open>m0\<close> to \<^verbatim>\<open>m50\<close> under the ticking clock.
\<close>

definition full_world :: world where
  "full_world =
     \<lparr>persistent_memories = [user_name \<mapsto> map (\<lambda>i. \<lparr>text = m_text i, timestamp = 2 * i\<rparr>) [0..<50]],
      saved = []\<rparr>"

definition failing_env :: env where
  "failing_env = \<lparr>mem0 = Some failing_client, now_append = 100, now_compact = 101\<rparr>"

definition first_51 :: "(env \<times> string) list" where
  "first_51 = map (\<lambda>i. (tick_env i, m_text i)) [0..<51]"

section \<open>Properties\<close>

subsection \<open>Slices\<close>

lemma slice_to_neg: "0 < k \<Longrightarrow> slice_to xs (- int k) = take (length xs - k) xs"
  by (auto simp: slice_to_def Let_def max_def nat_diff_distrib')

lemma slice_from_neg: "0 < k \<Longrightarrow> slice_from xs (- int k) = drop (length xs - k) xs"
  by (auto simp: slice_from_def Let_def max_def nat_diff_distrib')

lemma slice_to_20: "slice_to xs (- 20) = take (length xs - 20) xs"
  using slice_to_neg [of 20 xs] by simp

lemma slice_from_20: "slice_from xs (- 20) = drop (length xs - 20) xs"
  using slice_from_neg [of 20 xs] by simp

lemma slice_from_5: "slice_from xs (- 5) = drop (length xs - 5) xs"
  using slice_from_neg [of 5 xs] by simp

subsection \<open>One append\<close>

lemma add_memory_eq:
  "add_memory e msg w =
     Inr (w\<lparr>persistent_memories := (persistent_memories w)(user_name \<mapsto> appended e msg (log_of w)),
            saved := saved w @ [(persistent_memories w)(user_name \<mapsto> appended e msg (log_of w))]\<rparr>)"
  by (cases "persistent_memories w user_name")
     (simp_all add: add_memory_def summarize_old_memories_def save_memory_file_def log_of_def
        appended_def summary_entry_def slice_to_20 slice_from_20 Let_def)

lemma log_of_add_memory:
  "add_memory e msg w = Inr w' \<Longrightarrow> log_of w' = appended e msg (log_of w)"
  by (auto simp: add_memory_eq log_of_def)

lemma appended_short:
  "length log < 50 \<Longrightarrow> appended e msg log = log @ [\<lparr>text = msg, timestamp = now_append e\<rparr>]"
  by (simp add: appended_def Let_def)

lemma appended_full:
  "50 \<le> length log \<Longrightarrow>
   appended e msg log =
     summary_entry e (log @ [\<lparr>text = msg, timestamp = now_append e\<rparr>])
     # drop (length log - 19) (log @ [\<lparr>text = msg, timestamp = now_append e\<rparr>])"
  by (simp add: appended_def Let_def Suc_diff_le)

lemma length_appended:
  "length (appended e msg log) = (if length log < 50 then Suc (length log) else 21)"
  by (auto simp: appended_def Let_def)

lemma add_memory_full:
  assumes "50 \<le> length (log_of w)"
  shows "\<exists>w'. add_memory e msg w = Inr w'
     \<and> length (log_of w') = 21
     \<and> text (hd (log_of w')) = ''Summary of past: '' @
          summary_text (mem0 e)
            (join '' '' (map text (take (length (log_of w) - 19) (log_of w)))) user_name"
proof -
  obtain w' where a: "add_memory e msg w = Inr w'" by (simp add: add_memory_eq)
  have "log_of w' = appended e msg (log_of w)" by (rule log_of_add_memory [OF a])
  with assms have "length (log_of w') = 21" and "text (hd (log_of w')) = ''Summary of past: '' @
          summary_text (mem0 e)
            (join '' '' (map text (take (length (log_of w) - 19) (log_of w)))) user_name"
    by (simp_all add: appended_full summary_entry_def Suc_diff_le)
  with a show ?thesis by blast
qed

lemma log_of_init: "log_of init_world = []"
  by (simp add: log_of_def init_world_def)

lemma log_of_Some: "log_of w \<noteq> [] \<Longrightarrow> persistent_memories w user_name = Some (log_of w)"
  by (cases "persistent_memories w user_name") (simp_all add: log_of_def)

lemma log_of_full_world:
  "log_of full_world = map (\<lambda>i. \<lparr>text = m_text i, timestamp = 2 * i\<rparr>) [0..<50]"
  by (simp add: log_of_def full_world_def)

lemma log_of_jazz_world:
  "log_of jazz_world =
     \<lparr>text = ''Summary of past: likes jazz'', timestamp = 101\<rparr>
     # map (\<lambda>i. \<lparr>text = m_text i, timestamp = 2 * i\<rparr>) [31..<80]"
  by (simp add: log_of_def jazz_world_def)

subsection \<open>Sequences of appends\<close>

lemma run_total: "\<exists>w'. run cs w = Inr w'"
proof (induction cs arbitrary: w)
  case Nil
  show ?case by simp
next
  case (Cons c cs)
  obtain e msg where c: "c = (e, msg)" by (cases c)
  obtain w1 where w1: "add_memory e msg w = Inr w1" by (simp add: add_memory_eq)
  from Cons.IH [of w1] show ?case by (simp add: c w1)
qed

lemma run_append:
  "run (cs @ ds) w = (case run cs w of Inl err \<Rightarrow> Inl err | Inr w' \<Rightarrow> run ds w')"
proof (induction cs arbitrary: w)
  case Nil
  show ?case by simp
next
  case (Cons c cs)
  obtain e msg where c: "c = (e, msg)" by (cases c)
  show ?case by (simp add: c Cons.IH split: sum.splits)
qed

lemma run_snoc:
  "run cs w = Inr w1 \<Longrightarrow> run (cs @ [c]) w = add_memory (fst c) (snd c) w1"
  by (cases c) (simp add: run_append add_memory_eq)

lemma run_growing:
  "length (log_of w) + length cs \<le> 50 \<Longrightarrow>
   \<exists>w'. run cs w = Inr w' \<and> log_of w' = log_of w @ map entry_of cs"
proof (induction cs arbitrary: w)
  case Nil
  show ?case by simp
next
  case (Cons c cs)
  obtain e msg where c: "c = (e, msg)" by (cases c)
  obtain w1 where w1: "add_memory e msg w = Inr w1" by (simp add: add_memory_eq)
  from Cons.prems have short: "length (log_of w) < 50" by simp
  have l1: "log_of w1 = log_of w @ [entry_of c]"
    using log_of_add_memory [OF w1] short by (simp add: appended_short entry_of_def c)
  with Cons.prems have "length (log_of w1) + length cs \<le> 50" by simp
  from Cons.IH [OF this] obtain w' where "run cs w1 = Inr w'"
    and "log_of w' = log_of w1 @ map entry_of cs" by blast
  then show ?case by (simp add: c w1 l1)
qed

lemma run_51:
  "\<exists>w'. run (map (\<lambda>i. (envs i, txts i)) [0..<51]) init_world = Inr w'
     \<and> log_of w' =
         summary_entry (envs 50) (map (\<lambda>i. \<lparr>text = txts i, timestamp = now_append (envs i)\<rparr>) [0..<51])
         # map (\<lambda>i. \<lparr>text = txts i, timestamp = now_append (envs i)\<rparr>) [31..<51]"
proof -
  let ?c = "\<lambda>i. (envs i, txts i)"
  let ?en = "\<lambda>i. \<lparr>text = txts i, timestamp = now_append (envs i)\<rparr>"
  have split: "map ?c [0..<51] = map ?c [0..<50] @ [?c 50]"
    using upt_Suc_append [of 0 50] by simp
  have "length (log_of init_world) + length (map ?c [0..<50]) \<le> 50" by (simp add: log_of_init)
  from run_growing [OF this] obtain w where r: "run (map ?c [0..<50]) init_world = Inr w"
    and l: "log_of w = map ?en [0..<50]" by (auto simp: log_of_init entry_of_def o_def)
  obtain w' where a: "add_memory (envs 50) (txts 50) w = Inr w'" by (simp add: add_memory_eq)
  have r': "run (map ?c [0..<51]) init_world = Inr w'"
    using run_snoc [OF r, of "?c 50"] a by (simp add: split)
  have grown: "log_of w @ [?en 50] = map ?en [0..<51]"
    using upt_Suc_append [of 0 50] by (simp add: l)
  have "log_of w' = summary_entry (envs 50) (log_of w @ [?en 50]) # drop 31 (log_of w @ [?en 50])"
    using log_of_add_memory [OF a] by (simp add: appended_full l)
  then have "log_of w' = summary_entry (envs 50) (map ?en [0..<51]) # map ?en [31..<51]"
    unfolding grown by (simp add: drop_map)
  with r' show ?thesis by blast
qed

lemma m_texts_31_50:
  "map m_text [31..<51] =
     [''m31'', ''m32'', ''m33'', ''m34'', ''m35'', ''m36'', ''m37'', ''m38'', ''m39'', ''m40'',
      ''m41'', ''m42'', ''m43'', ''m44'', ''m45'', ''m46'', ''m47'', ''m48'', ''m49'', ''m50'']"
  by code_simp

lemma m_texts_61_79:
  "map m_text [61..<80] =
     [''m61'', ''m62'', ''m63'', ''m64'', ''m65'', ''m66'', ''m67'', ''m68'', ''m69'', ''m70'',
      ''m71'', ''m72'', ''m73'', ''m74'', ''m75'', ''m76'', ''m77'', ''m78'', ''m79'']"
  by code_simp

lemma spaced_m_texts_31_60:
  "concat (map (\<lambda>i. CHR '' '' # m_text i) [31..<61]) =
     '' m31 m32 m33 m34 m35 m36 m37 m38 m39 m40 m41 m42 m43 m44 m45 m46 m47 m48 m49 m50 m51 m52 m53 m54 m55 m56 m57 m58 m59 m60''"
  by code_simp

subsection \<open>The read path, \<^verbatim>\<open>str.join\<close> and line feeds\<close>

lemma get_memory_summary_eq:
  "get_memory_summary w =
     (if log_of w = [] then ''No past memories yet.''
      else join newline (map (\<lambda>m. ''- '' @ text m) (drop (length (log_of w) - 5) (log_of w))))"
proof (cases "log_of w = []")
  case True
  then show ?thesis by (simp add: get_memory_summary_def log_of_def slice_from_5)
next
  case False
  then have "\<not> length (log_of w) \<le> length (log_of w) - 5" by (cases "log_of w") simp_all
  with False show ?thesis
    by (simp add: get_memory_summary_def log_of_def slice_from_5 Let_def o_def)
qed

lemma join_concat: "join sep (x # xs) = x @ concat (map (\<lambda>y. sep @ y) xs)"
  by (induction xs arbitrary: x) simp_all

lemma join_texts:
  "log \<noteq> [] \<Longrightarrow>
   join sep (map f log) = f (hd log) @ concat (map (\<lambda>m. sep @ f m) (tl log))"
  by (cases log) (simp_all add: join_concat o_def)

lemma feeds_append: "feeds (xs @ ys) = feeds xs + feeds ys"
  by (simp add: feeds_def)

lemma feeds_join:
  "xs \<noteq> [] \<Longrightarrow> feeds (join newline xs) + 1 = sum_list (map feeds xs) + length xs"
proof (induction newline xs rule: join.induct)
  case 1
  then show ?case by simp
next
  case (2 x)
  show ?case by simp
next
  case (3 x y ys)
  have "feeds newline = 1" by (simp add: feeds_def newline_def)
  with 3 show ?case by (simp add: feeds_append)
qed

lemma feeds_none: "(\<forall>s \<in> set xs. feeds s = 0) \<Longrightarrow> sum_list (map feeds xs) = 0"
  by (induction xs) simp_all

lemma failed_note_lacks_fallback:
  "\<not> sublist ''Past conversations and interactions''
       ''Summary of past:  (failed to summarize older memories) ''"
  by code_simp

lemma jazz_lacks: "\<not> sublist ''likes jazz'' ''Summary of past: Past conversations and interactions''"
  by code_simp

subsection \<open>Timestamps along a run\<close>

lemma readings_snoc:
  "readings (cs @ [c]) = readings cs @ [now_append (fst c), now_compact (fst c)]"
  by (simp add: readings_def)

lemma sorted_drop_tl: "sorted (map f (tl xs)) \<Longrightarrow> 0 < k \<Longrightarrow> sorted (map f (drop k xs))"
proof -
  assume s: "sorted (map f (tl xs))" and k: "0 < k"
  then obtain j where j: "k = Suc j" by (cases k) auto
  have "drop k xs = drop j (tl xs)" by (simp add: j drop_Suc)
  moreover have "sorted (drop j (map f (tl xs)))" using s by (rule sorted_wrt_drop)
  ultimately show ?thesis by (simp add: drop_map)
qed

lemma appended_stamps:
  assumes tl_sorted: "sorted (map timestamp (tl log))"
    and older: "\<forall>t \<in> set (map timestamp log). t \<le> now_append e"
    and tick: "now_append e \<le> now_compact e"
  shows "sorted (map timestamp (tl (appended e msg log)))"
    and "\<forall>t \<in> set (map timestamp (appended e msg log)). t \<le> now_compact e"
    and "50 \<le> length log \<longrightarrow>
          (\<forall>t \<in> set (map timestamp (tl (appended e msg log))).
              t \<le> timestamp (hd (appended e msg log)))"
proof -
  let ?new = "\<lparr>text = msg, timestamp = now_append e\<rparr>"
  have sorted_snoc: "sorted (map timestamp (xs @ [?new]))"
    if "sorted (map timestamp xs)" and "set xs \<subseteq> set log" for xs
    using that older by (auto simp: sorted_append)
  show "sorted (map timestamp (tl (appended e msg log)))"
  proof (cases "length log < 50")
    case True
    show ?thesis
    proof (cases log)
      case Nil
      then show ?thesis by (simp add: appended_def)
    next
      case (Cons x xs)
      have "set (tl log) \<subseteq> set log" by (simp add: Cons subset_insertI)
      from sorted_snoc [OF tl_sorted this] True show ?thesis
        by (simp add: appended_short Cons)
    qed
  next
    case False
    then have full: "50 \<le> length log" by simp
    then have "sorted (map timestamp (drop (length log - 19) log))"
      by (intro sorted_drop_tl [OF tl_sorted]) simp
    moreover have "set (drop (length log - 19) log) \<subseteq> set log" by (rule set_drop_subset)
    ultimately have "sorted (map timestamp (drop (length log - 19) log @ [?new]))"
      by (rule sorted_snoc)
    with full show ?thesis by (simp add: appended_full)
  qed
  show all: "\<forall>t \<in> set (map timestamp (appended e msg log)). t \<le> now_compact e"
  proof (cases "length log < 50")
    case True
    with older tick show ?thesis by (auto simp: appended_short)
  next
    case False
    then have "50 \<le> length log" by simp
    with older tick show ?thesis
      by (auto simp: appended_full summary_entry_def dest!: in_set_dropD)
  qed
  show "50 \<le> length log \<longrightarrow>
          (\<forall>t \<in> set (map timestamp (tl (appended e msg log))).
              t \<le> timestamp (hd (appended e msg log)))"
  proof
    assume full: "50 \<le> length log"
    then have "timestamp (hd (appended e msg log)) = now_compact e"
      by (simp add: appended_full summary_entry_def)
    moreover have "set (tl (appended e msg log)) \<subseteq> set (appended e msg log)"
      using full by (auto simp: appended_full)
    ultimately show "\<forall>t \<in> set (map timestamp (tl (appended e msg log))).
              t \<le> timestamp (hd (appended e msg log))"
      using all by auto
  qed
qed

lemma run_stamps:
  "sorted (readings cs) \<Longrightarrow>
   \<exists>w. run cs init_world = Inr w
     \<and> sorted (map timestamp (tl (log_of w)))
     \<and> set (map timestamp (log_of w)) \<subseteq> set (readings cs)"
proof (induction cs rule: rev_induct)
  case Nil
  show ?case by (simp add: log_of_init)
next
  case (snoc c cs)
  let ?e = "fst c"
  from snoc.prems have s: "sorted (readings cs)"
    and le: "\<forall>r \<in> set (readings cs). r \<le> now_append ?e"
    and tick: "now_append ?e \<le> now_compact ?e"
    by (auto simp: readings_snoc sorted_append)
  from snoc.IH [OF s] obtain w where r: "run cs init_world = Inr w"
    and tl_sorted: "sorted (map timestamp (tl (log_of w)))"
    and sub: "set (map timestamp (log_of w)) \<subseteq> set (readings cs)" by blast
  obtain w' where a: "add_memory ?e (snd c) w = Inr w'" by (simp add: add_memory_eq)
  have l: "log_of w' = appended ?e (snd c) (log_of w)" by (rule log_of_add_memory [OF a])
  from sub le have older: "\<forall>t \<in> set (map timestamp (log_of w)). t \<le> now_append ?e" by blast
  have r': "run (cs @ [c]) init_world = Inr w'" using run_snoc [OF r] a by simp
  have "sorted (map timestamp (tl (log_of w')))"
    unfolding l by (rule appended_stamps(1) [OF tl_sorted older tick])
  moreover have "set (map timestamp (log_of w')) \<subseteq> set (readings (cs @ [c]))"
  proof (cases "length (log_of w) < 50")
    case True
    with sub show ?thesis by (auto simp: l appended_short readings_snoc)
  next
    case False
    then have "50 \<le> length (log_of w)" by simp
    with sub show ?thesis
      by (auto simp: l appended_full summary_entry_def readings_snoc dest!: in_set_dropD)
  qed
  ultimately show ?case using r' by blast
qed

lemma tick_readings:
  "sorted (readings (map (\<lambda>i. (tick_env i, f i)) [0..<n]))
   \<and> (\<forall>r \<in> set (readings (map (\<lambda>i. (tick_env i, f i)) [0..<n])). r < 2 * n)"
proof (induction n)
  case 0
  show ?case by (simp add: readings_def)
next
  case (Suc n)
  then show ?case
    by (auto simp: readings_snoc sorted_append tick_env_def)
qed

lemma first_51_sorted: "sorted (readings first_51)"
  using tick_readings [of m_text 51] by (simp add: first_51_def)

section \<open>The claims\<close>

text \<open>
  C1. The 51 appends of \<^verbatim>\<open>m0\<close> to \<^verbatim>\<open>m50\<close> to the empty store, whatever the clock
  reads and whatever the client does: the user's log then has 21 entries, the text of the
  first starts with \<^verbatim>\<open>Summary of past:\<close>, and the 20 behind it carry the texts
  \<^verbatim>\<open>m31\<close> to \<^verbatim>\<open>m50\<close>, in this order, each with the timestamp of its own append.
\<close>

theorem scenario_51:
  "\<exists>w' log. run (map (\<lambda>i. (envs i, m_text i)) [0..<51]) init_world = Inr w'
     \<and> persistent_memories w' user_name = Some log
     \<and> length log = 21
     \<and> prefix ''Summary of past:'' (text (log ! 0))
     \<and> map text (tl log) =
         [''m31'', ''m32'', ''m33'', ''m34'', ''m35'', ''m36'', ''m37'', ''m38'', ''m39'', ''m40'',
          ''m41'', ''m42'', ''m43'', ''m44'', ''m45'', ''m46'', ''m47'', ''m48'', ''m49'', ''m50'']
     \<and> map timestamp (tl log) = map (\<lambda>i. now_append (envs i)) [31..<51]"
proof -
  from run_51 [of envs m_text] obtain w'
    where r: "run (map (\<lambda>i. (envs i, m_text i)) [0..<51]) init_world = Inr w'"
      and l: "log_of w' =
         summary_entry (envs 50) (map (\<lambda>i. \<lparr>text = m_text i, timestamp = now_append (envs i)\<rparr>) [0..<51])
         # map (\<lambda>i. \<lparr>text = m_text i, timestamp = now_append (envs i)\<rparr>) [31..<51]"
    by blast
  from l have some: "persistent_memories w' user_name = Some (log_of w')"
    by (intro log_of_Some) simp
  have len: "length (log_of w') = 21" by (simp add: l)
  have pre: "prefix ''Summary of past:'' (text (log_of w' ! 0))"
    by (simp add: l summary_entry_def)
  have tx: "map text (tl (log_of w')) = map m_text [31..<51]" by (simp add: l o_def)
  have ts: "map timestamp (tl (log_of w')) = map (\<lambda>i. now_append (envs i)) [31..<51]"
    by (simp add: l o_def)
  show ?thesis
    by (rule exI [of _ w'], rule exI [of _ "log_of w'"])
       (intro conjI r some len pre ts tx [unfolded m_texts_31_50])
qed

text \<open>
  C2, as amended. An append to a log of 50 entries or more compacts it and returns: no
  branch raises. With no client the summary is \<^verbatim>\<open>Past conversations and interactions\<close>;
  when the client's \<^verbatim>\<open>summarize\<close> raises, it is the other fixed text of line 134,
  \<^verbatim>\<open> (failed to summarize older memories) \<close>.
\<close>

theorem compaction_never_raises:
  assumes "50 \<le> length (log_of w)"
  shows "\<exists>w' s. add_memory e msg w = Inr w'
     \<and> length (log_of w') = 21
     \<and> text (hd (log_of w')) = ''Summary of past: '' @ s
     \<and> (mem0 e = None \<longrightarrow> s = ''Past conversations and interactions'')
     \<and> (\<forall>c err. mem0 e = Some c
           \<and> mem0_summarize c
                (join '' '' (map text (take (length (log_of w) - 19) (log_of w)))) user_name = Inl err
          \<longrightarrow> s = '' (failed to summarize older memories) '')"
proof -
  let ?s = "summary_text (mem0 e)
            (join '' '' (map text (take (length (log_of w) - 19) (log_of w)))) user_name"
  from add_memory_full [OF assms, of e msg] obtain w'
    where a: "add_memory e msg w = Inr w'" and n: "length (log_of w') = 21"
      and t: "text (hd (log_of w')) = ''Summary of past: '' @ ?s" by blast
  have none: "mem0 e = None \<longrightarrow> ?s = ''Past conversations and interactions''"
    by (simp add: summary_text_def)
  have failed: "\<forall>c err. mem0 e = Some c
           \<and> mem0_summarize c
                (join '' '' (map text (take (length (log_of w) - 19) (log_of w)))) user_name = Inl err
          \<longrightarrow> ?s = '' (failed to summarize older memories) ''"
    by (simp add: summary_text_def)
  show ?thesis
    by (rule exI [of _ w'], rule exI [of _ ?s]) (intro conjI a n t none failed)
qed

theorem compaction_never_raises_witness:
  "50 \<le> length (log_of full_world)
   \<and> (\<exists>w'. add_memory (tick_env 50) ''m50'' full_world = Inr w'
        \<and> length (log_of w') = 21
        \<and> text (hd (log_of w')) = ''Summary of past: Past conversations and interactions'')
   \<and> (\<exists>w'. add_memory failing_env ''m50'' full_world = Inr w'
        \<and> length (log_of w') = 21
        \<and> text (hd (log_of w')) = ''Summary of past:  (failed to summarize older memories) '')"
proof -
  have n: "50 \<le> length (log_of full_world)" by (simp add: log_of_full_world)
  have a: "\<exists>w'. add_memory (tick_env 50) ''m50'' full_world = Inr w'
        \<and> length (log_of w') = 21
        \<and> text (hd (log_of w')) = ''Summary of past: Past conversations and interactions''"
    using compaction_never_raises [OF n, of "tick_env 50" "''m50''"]
    by (auto simp: tick_env_def)
  have b: "\<exists>w'. add_memory failing_env ''m50'' full_world = Inr w'
        \<and> length (log_of w') = 21
        \<and> text (hd (log_of w')) = ''Summary of past:  (failed to summarize older memories) ''"
    using compaction_never_raises [OF n, of failing_env "''m50''"]
    by (auto simp: failing_env_def failing_client_def)
  from n a b show ?thesis by simp
qed

text \<open>
  C2 as it was stated fails when the client raises: the summary entry then does not
  contain \<^verbatim>\<open>Past conversations and interactions\<close>.
\<close>

theorem fallback_text_counterexample:
  "\<exists>w'. add_memory failing_env ''m50'' full_world = Inr w'
     \<and> text (hd (log_of w')) = ''Summary of past:  (failed to summarize older memories) ''
     \<and> \<not> sublist ''Past conversations and interactions'' (text (hd (log_of w')))"
proof -
  have "50 \<le> length (log_of full_world)" by (simp add: log_of_full_world)
  from add_memory_full [OF this, of failing_env "''m50''"]
  obtain w' where a: "add_memory failing_env ''m50'' full_world = Inr w'"
    and t: "text (hd (log_of w')) = ''Summary of past:  (failed to summarize older memories) ''"
    by (auto simp: summary_text_def failing_env_def failing_client_def)
  from a t failed_note_lacks_fallback show ?thesis by simp
qed

text \<open>
  C3, as amended. Along appends to the empty store at clock readings that do not decrease,
  the timestamps of every log are non-decreasing from its second entry on. An append that
  compacts leaves 21 entries, and the summary entry in front, stamped when the compaction
  runs, carries a timestamp at least as late as each of the 20 behind it.
\<close>

theorem stamps_after_first_sorted:
  assumes "sorted (readings (cs @ [c]))"
  shows "\<exists>w w'. run cs init_world = Inr w \<and> run (cs @ [c]) init_world = Inr w'
     \<and> sorted (map timestamp (tl (log_of w')))
     \<and> (50 \<le> length (log_of w) \<longrightarrow>
          length (log_of w') = 21
          \<and> (\<forall>t \<in> set (map timestamp (tl (log_of w'))). t \<le> timestamp (hd (log_of w'))))"
proof -
  let ?e = "fst c"
  from assms have s: "sorted (readings cs)"
    and le: "\<forall>r \<in> set (readings cs). r \<le> now_append ?e"
    and tick: "now_append ?e \<le> now_compact ?e"
    by (auto simp: readings_snoc sorted_append)
  from run_stamps [OF s] obtain w where r: "run cs init_world = Inr w"
    and tl_sorted: "sorted (map timestamp (tl (log_of w)))"
    and sub: "set (map timestamp (log_of w)) \<subseteq> set (readings cs)" by blast
  obtain w' where a: "add_memory ?e (snd c) w = Inr w'" by (simp add: add_memory_eq)
  have l: "log_of w' = appended ?e (snd c) (log_of w)" by (rule log_of_add_memory [OF a])
  from sub le have older: "\<forall>t \<in> set (map timestamp (log_of w)). t \<le> now_append ?e" by blast
  have r': "run (cs @ [c]) init_world = Inr w'" using run_snoc [OF r] a by simp
  have one: "sorted (map timestamp (tl (log_of w')))"
    unfolding l by (rule appended_stamps(1) [OF tl_sorted older tick])
  have two: "50 \<le> length (log_of w) \<longrightarrow>
          length (log_of w') = 21
          \<and> (\<forall>t \<in> set (map timestamp (tl (log_of w'))). t \<le> timestamp (hd (log_of w')))"
    using appended_stamps(3) [OF tl_sorted older tick, of "snd c"]
    by (simp add: l length_appended)
  show ?thesis
    by (rule exI [of _ w], rule exI [of _ w']) (intro conjI r r' one two)
qed

theorem stamps_after_first_sorted_witness:
  "sorted (readings first_51)
   \<and> (\<exists>w w'. run (butlast first_51) init_world = Inr w \<and> run first_51 init_world = Inr w'
        \<and> 50 \<le> length (log_of w)
        \<and> sorted (map timestamp (tl (log_of w')))
        \<and> length (log_of w') = 21
        \<and> (\<forall>t \<in> set (map timestamp (tl (log_of w'))). t \<le> timestamp (hd (log_of w'))))"
proof -
  let ?cs = "map (\<lambda>i. (tick_env i, m_text i)) [0..<50]"
  let ?c = "(tick_env 50, m_text 50)"
  have split: "first_51 = ?cs @ [?c]"
    using upt_Suc_append [of 0 50] by (simp add: first_51_def)
  have s: "sorted (readings (?cs @ [?c]))" using first_51_sorted by (simp only: split)
  have "length (log_of init_world) + length ?cs \<le> 50" by (simp add: log_of_init)
  from run_growing [OF this] obtain w0 where r0: "run ?cs init_world = Inr w0"
    and n0: "length (log_of w0) = 50" by (auto simp: log_of_init)
  from stamps_after_first_sorted [OF s] r0 n0
  have "\<exists>w w'. run ?cs init_world = Inr w \<and> run (?cs @ [?c]) init_world = Inr w'
        \<and> 50 \<le> length (log_of w)
        \<and> sorted (map timestamp (tl (log_of w')))
        \<and> length (log_of w') = 21
        \<and> (\<forall>t \<in> set (map timestamp (tl (log_of w'))). t \<le> timestamp (hd (log_of w')))"
    by auto
  with s show ?thesis by (simp only: split butlast_snoc)
qed

text \<open>
  C3 as it was stated fails at the first compaction: under the ticking clock the summary
  entry is stamped 101 and the entry behind it 62.
\<close>

theorem summary_stamp_counterexample:
  "sorted (readings first_51)
   \<and> (\<exists>w'. run first_51 init_world = Inr w'
        \<and> length (log_of w') = 21
        \<and> timestamp (log_of w' ! 0) = 101
        \<and> timestamp (log_of w' ! 1) = 62
        \<and> \<not> sorted (map timestamp (log_of w')))"
proof -
  from run_51 [of tick_env m_text] obtain w'
    where r: "run first_51 init_world = Inr w'"
      and l: "log_of w' =
         summary_entry (tick_env 50) (map (\<lambda>i. \<lparr>text = m_text i, timestamp = now_append (tick_env i)\<rparr>) [0..<51])
         # map (\<lambda>i. \<lparr>text = m_text i, timestamp = now_append (tick_env i)\<rparr>) [31..<51]"
    unfolding first_51_def by blast
  have n: "length (log_of w') = 21" by (simp add: l)
  have a: "timestamp (log_of w' ! 0) = 101" by (simp add: l summary_entry_def tick_env_def)
  have b: "timestamp (log_of w' ! 1) = 62" by (simp add: l tick_env_def)
  have "\<not> sorted (map timestamp (log_of w'))"
  proof
    assume "sorted (map timestamp (log_of w'))"
    then have "map timestamp (log_of w') ! 0 \<le> map timestamp (log_of w') ! 1"
      by (rule sorted_nth_mono) (simp_all add: n)
    with a b n show False by simp
  qed
  with r n a b first_51_sorted show ?thesis by blast
qed

text \<open>
  C4, as amended. When none of the last five texts of the log holds a line feed,
  \<^verbatim>\<open>get_memory_summary\<close> returns at most five lines.
\<close>

theorem context_lines_bounded:
  assumes "\<forall>m \<in> set (drop (length (log_of w) - 5) (log_of w)). CHR 0x0A \<notin> set (text m)"
  shows "line_count (get_memory_summary w) \<le> 5"
proof (cases "log_of w = []")
  case True
  then show ?thesis by (simp add: get_memory_summary_eq line_count_def feeds_def)
next
  case False
  define r where "r = map (\<lambda>m. ''- '' @ text m) (drop (length (log_of w) - 5) (log_of w))"
  from False have ne: "r \<noteq> []" unfolding r_def by (cases "log_of w") simp_all
  have len: "length r \<le> 5" unfolding r_def by simp
  have "\<forall>s \<in> set r. feeds s = 0"
    using assms unfolding r_def by (auto simp: feeds_def filter_empty_conv)
  then have "sum_list (map feeds r) = 0" by (rule feeds_none)
  with feeds_join [OF ne] len have "feeds (join newline r) + 1 \<le> 5" by simp
  moreover have "get_memory_summary w = join newline r"
    using False by (simp add: get_memory_summary_eq r_def)
  ultimately show ?thesis by (simp add: line_count_def feeds_def)
qed

theorem context_lines_bounded_witness:
  "line_count (get_memory_summary six_world) \<le> 5"
proof -
  have h: "\<forall>m \<in> set (drop (length (log_of six_world) - 5) (log_of six_world)).
      CHR 0x0A \<notin> set (text m)"
    by (simp add: log_of_def six_world_def)
  from context_lines_bounded [OF h] show ?thesis .
qed

text \<open>
  C4 as it was stated fails on a text that holds line feeds: a log of one entry gives six
  lines.
\<close>

theorem context_lines_counterexample:
  "line_count (get_memory_summary multiline_world) = 6
   \<and> \<not> line_count (get_memory_summary multiline_world) \<le> 5"
  by (simp add: get_memory_summary_eq log_of_def multiline_world_def line_count_def feeds_def)

text \<open>
  C5. Every append hands to \<^verbatim>\<open>save_memory_file\<close> the dictionary it leaves behind, after
  any compaction: the user's log in it has one entry more than before when that is at most
  50 entries, and 21 entries otherwise, so never more than 50.
\<close>

theorem persisted_log_bounded:
  "\<exists>w' log. add_memory e msg w = Inr w'
     \<and> saved w' = saved w @ [persistent_memories w']
     \<and> last (saved w') user_name = Some log
     \<and> length log = (if length (log_of w) < 50 then Suc (length (log_of w)) else 21)
     \<and> length log \<le> 50"
  by (simp add: add_memory_eq length_appended)

theorem persisted_log_bounded_witness:
  "\<exists>w' log. add_memory (tick_env 0) ''hello'' init_world = Inr w'
     \<and> saved w' = saved init_world @ [persistent_memories w']
     \<and> last (saved w') user_name = Some log
     \<and> length log = 1 \<and> length log \<le> 50"
  using persisted_log_bounded [of "tick_env 0" "''hello''" init_world]
  by (simp add: log_of_init)

text \<open>
  C6, as amended. Up to 50 appends to the empty store: reading the log gives as many
  entries as appends, with the appended texts in the order of the appends, each stamped
  with the clock reading of its own append. Line 116 stores the wall clock as it is, so
  the timestamps are non-decreasing exactly when those readings are.
\<close>

theorem appends_keep_order:
  assumes "length cs \<le> 50"
  shows "\<exists>w'. run cs init_world = Inr w'
     \<and> length (log_of w') = length cs
     \<and> map text (log_of w') = map snd cs
     \<and> map timestamp (log_of w') = map (\<lambda>c. now_append (fst c)) cs
     \<and> (sorted (map timestamp (log_of w')) = sorted (map (\<lambda>c. now_append (fst c)) cs))"
proof -
  from assms have "length (log_of init_world) + length cs \<le> 50"
    by (simp add: log_of_init)
  from run_growing [OF this] obtain w' where r: "run cs init_world = Inr w'"
    and l: "log_of w' = map entry_of cs" by (auto simp: log_of_init)
  have n: "length (log_of w') = length cs" by (simp add: l)
  have tx: "map text (log_of w') = map snd cs" by (simp add: l entry_of_def)
  have ts: "map timestamp (log_of w') = map (\<lambda>c. now_append (fst c)) cs"
    by (simp add: l entry_of_def)
  have s: "sorted (map timestamp (log_of w')) = sorted (map (\<lambda>c. now_append (fst c)) cs)"
    by (simp only: ts)
  show ?thesis by (intro exI [of _ w'] conjI r n tx ts s)
qed

theorem appends_keep_order_witness:
  "length [(tick_env 0, ''a''), (tick_env 0, ''b''), (tick_env 1, ''c'')] \<le> 50
   \<and> (\<exists>w'. run [(tick_env 0, ''a''), (tick_env 0, ''b''), (tick_env 1, ''c'')] init_world = Inr w'
     \<and> length (log_of w') = 3
     \<and> map text (log_of w') = [''a'', ''b'', ''c'']
     \<and> map timestamp (log_of w') = [0, 0, 2]
     \<and> sorted (map timestamp (log_of w')))"
proof -
  have a: "length [(tick_env 0, ''a''), (tick_env 0, ''b''), (tick_env 1, ''c'')] \<le> 50"
    by simp
  show ?thesis using a appends_keep_order [OF a] by (auto simp: tick_env_def)
qed

text \<open>
  C6 as it was stated fails when the wall clock is set back between two appends: readings
  10 and then 5 give the timestamps 10 and 5, in the order of the appends.
\<close>

theorem clock_step_back_counterexample:
  "\<exists>w'. run [(\<lparr>mem0 = None, now_append = 10, now_compact = 10\<rparr>, ''a''),
              (\<lparr>mem0 = None, now_append = 5, now_compact = 5\<rparr>, ''b'')] init_world = Inr w'
     \<and> map text (log_of w') = [''a'', ''b'']
     \<and> map timestamp (log_of w') = [10, 5]
     \<and> \<not> sorted (map timestamp (log_of w'))"
proof -
  let ?cs = "[(\<lparr>mem0 = None, now_append = 10, now_compact = 10\<rparr>, ''a''),
              (\<lparr>mem0 = None, now_append = 5, now_compact = 5\<rparr>, ''b'')]"
  have "length (log_of init_world) + length ?cs \<le> 50" by (simp add: log_of_init)
  from run_growing [OF this] obtain w' where r: "run ?cs init_world = Inr w'"
    and l: "log_of w' = map entry_of ?cs" by (auto simp: log_of_init)
  have tx: "map text (log_of w') = [''a'', ''b'']" by (simp add: l entry_of_def)
  have ts: "map timestamp (log_of w') = [10, 5]" by (simp add: l entry_of_def)
  have ns: "\<not> sorted (map timestamp (log_of w'))" by (simp add: ts)
  show ?thesis by (intro exI [of _ w'] conjI r tx ts ns)
qed

text \<open>
  C7. A memory file whose bytes are not valid text, such as the single byte
  \<^verbatim>\<open>0xFF\<close>: reading it inside \<^verbatim>\<open>json.load\<close> raises \<^verbatim>\<open>UnicodeDecodeError\<close>, which
  the \<^verbatim>\<open>except json.JSONDecodeError\<close> of line 89 does not catch. \<^verbatim>\<open>load_memory_file\<close>
  raises it, at line 100 while the module is loaded, and does not return the empty
  mapping.
\<close>

theorem load_raises_on_undecodable:
  "load_memory_file True (Inl UnicodeDecodeError) = Inl UnicodeDecodeError
   \<and> load_memory_file True (Inl UnicodeDecodeError) \<noteq> Inr (JObject [])"
  by (simp add: load_memory_file_def)

text \<open>
  C8. Appends to the empty store, one at a time: after at most 50 of them the log has as
  many entries as appends. One more append, when fewer than 50 went before, leaves every
  entry in place and puts the new one behind them. The 51st does not: the log it leaves
  has 21 entries, the last 20 of the grown log behind a new first entry.
\<close>

theorem short_append_keeps_entries:
  assumes "length cs \<le> 50"
  shows "\<exists>w w'. run cs init_world = Inr w \<and> run (cs @ [c]) init_world = Inr w'
     \<and> length (log_of w) = length cs
     \<and> (if length cs < 50 then log_of w' = log_of w @ [entry_of c]
         else length (log_of w') = 21 \<and> \<not> prefix (log_of w) (log_of w')
            \<and> tl (log_of w') = drop 31 (log_of w @ [entry_of c]))"
proof -
  from assms have "length (log_of init_world) + length cs \<le> 50"
    by (simp add: log_of_init)
  from run_growing [OF this] obtain w where r: "run cs init_world = Inr w"
    and l: "log_of w = map entry_of cs" by (auto simp: log_of_init)
  obtain w' where a: "add_memory (fst c) (snd c) w = Inr w'" by (simp add: add_memory_eq)
  have r': "run (cs @ [c]) init_world = Inr w'" using run_snoc [OF r] a by simp
  have l': "log_of w' = appended (fst c) (snd c) (log_of w)" by (rule log_of_add_memory [OF a])
  have n: "length (log_of w) = length cs" by (simp add: l)
  show ?thesis
  proof (cases "length cs < 50")
    case True
    then have "log_of w' = log_of w @ [entry_of c]"
      using l' n by (simp add: appended_short entry_of_def)
    with r r' n True show ?thesis by simp
  next
    case False
    with assms have fifty: "length (log_of w) = 50" using n by simp
    then have full: "log_of w' =
        summary_entry (fst c) (log_of w @ [entry_of c]) # drop 31 (log_of w @ [entry_of c])"
      using l' by (simp add: appended_full entry_of_def)
    have len: "length (log_of w') = 21" using full fifty by simp
    have "\<not> prefix (log_of w) (log_of w')"
      using len fifty by (auto dest: prefix_length_le)
    with r r' n False len full show ?thesis by simp
  qed
qed

theorem short_append_keeps_entries_witness:
  "length [(tick_env 0, ''a'')] \<le> 50
   \<and> (\<exists>w w'. run [(tick_env 0, ''a'')] init_world = Inr w
        \<and> run ([(tick_env 0, ''a'')] @ [(tick_env 1, ''b'')]) init_world = Inr w'
        \<and> log_of w' = log_of w @ [\<lparr>text = ''b'', timestamp = 2\<rparr>])
   \<and> length (map (\<lambda>i. (tick_env i, m_text i)) [0..<50]) \<le> 50
   \<and> (\<exists>w w'. run (map (\<lambda>i. (tick_env i, m_text i)) [0..<50]) init_world = Inr w
        \<and> run (map (\<lambda>i. (tick_env i, m_text i)) [0..<50] @ [(tick_env 50, m_text 50)])
              init_world = Inr w'
        \<and> length (log_of w) = 50 \<and> length (log_of w') = 21)"
proof -
  have a: "\<exists>w w'. run [(tick_env 0, ''a'')] init_world = Inr w
        \<and> run ([(tick_env 0, ''a'')] @ [(tick_env 1, ''b'')]) init_world = Inr w'
        \<and> log_of w' = log_of w @ [\<lparr>text = ''b'', timestamp = 2\<rparr>]"
    using short_append_keeps_entries [of "[(tick_env 0, ''a'')]" "(tick_env 1, ''b'')"]
    by (auto simp: entry_of_def tick_env_def)
  have b: "\<exists>w w'. run (map (\<lambda>i. (tick_env i, m_text i)) [0..<50]) init_world = Inr w
        \<and> run (map (\<lambda>i. (tick_env i, m_text i)) [0..<50] @ [(tick_env 50, m_text 50)])
              init_world = Inr w'
        \<and> length (log_of w) = 50 \<and> length (log_of w') = 21"
    using short_append_keeps_entries
      [of "map (\<lambda>i. (tick_env i, m_text i)) [0..<50]" "(tick_env 50, m_text 50)"]
    by auto
  from a b show ?thesis by simp
qed

text \<open>
  C9. With the user absent or the log empty, \<^verbatim>\<open>get_memory_summary\<close> returns the
  sentinel \<^verbatim>\<open>No past memories yet.\<close>. On a log with entries it returns the texts of the
  last five, oldest first: the marker \<^verbatim>\<open>- \<close> and the first of them, then for each
  further one a line feed, the marker and the text. The result is never the empty string.
  Lines 145 to 150 have no raising branch on a store of logs.
\<close>

theorem memory_summary_shape:
  "(persistent_memories w user_name = None \<or> persistent_memories w user_name = Some []
      \<longrightarrow> get_memory_summary w = ''No past memories yet.'')
   \<and> (\<forall>log. persistent_memories w user_name = Some log \<and> log \<noteq> []
      \<longrightarrow> get_memory_summary w =
            ''- '' @ text (hd (drop (length log - 5) log))
            @ concat (map (\<lambda>m. CHR 0x0A # ''- '' @ text m) (tl (drop (length log - 5) log))))
   \<and> get_memory_summary w \<noteq> []"
proof -
  have shape: "get_memory_summary w =
            ''- '' @ text (hd (drop (length log - 5) log))
            @ concat (map (\<lambda>m. CHR 0x0A # ''- '' @ text m) (tl (drop (length log - 5) log)))"
    if some: "persistent_memories w user_name = Some log" and ne: "log \<noteq> []" for log
  proof -
    from ne have r: "drop (length log - 5) log \<noteq> []" by (cases log) simp_all
    from some ne have "get_memory_summary w =
        join newline (map (\<lambda>m. ''- '' @ text m) (drop (length log - 5) log))"
      by (simp add: get_memory_summary_eq log_of_def)
    also have "\<dots> = (''- '' @ text (hd (drop (length log - 5) log)))
        @ concat (map (\<lambda>m. newline @ ''- '' @ text m) (tl (drop (length log - 5) log)))"
      by (rule join_texts [OF r])
    finally show ?thesis by (simp add: newline_def)
  qed
  have empty: "persistent_memories w user_name = None \<or> persistent_memories w user_name = Some []
      \<longrightarrow> get_memory_summary w = ''No past memories yet.''"
    by (auto simp: get_memory_summary_eq log_of_def)
  have "get_memory_summary w \<noteq> []"
  proof (cases "log_of w = []")
    case True
    then show ?thesis by (simp add: get_memory_summary_eq)
  next
    case False
    then have "persistent_memories w user_name = Some (log_of w)" by (rule log_of_Some)
    from shape [OF this False] show ?thesis by simp
  qed
  with empty shape show ?thesis by blast
qed

theorem memory_summary_shape_witness:
  "get_memory_summary init_world = ''No past memories yet.''
   \<and> get_memory_summary six_world =
       ''- m1'' @ [CHR 0x0A] @ ''- m2'' @ [CHR 0x0A] @ ''- m3'' @ [CHR 0x0A] @ ''- m4''
       @ [CHR 0x0A] @ ''- m5''"
proof -
  have a: "get_memory_summary init_world = ''No past memories yet.''"
    using memory_summary_shape [of init_world] by (simp add: init_world_def)
  have b: "get_memory_summary six_world =
       ''- m1'' @ [CHR 0x0A] @ ''- m2'' @ [CHR 0x0A] @ ''- m3'' @ [CHR 0x0A] @ ''- m4''
       @ [CHR 0x0A] @ ''- m5''"
    using memory_summary_shape [of six_world] by (simp add: six_world_def)
  from a b show ?thesis by simp
qed

text \<open>
  C10, as amended. An append to a log of 50 entries or more compacts it, whatever the
  entries are, a summary entry of an earlier compaction included: 21 entries remain, the
  last 20 of the grown log behind the new summary entry. The old part is the grown log
  without its last 20 entries, so it starts with the first entry of the log. When a client
  is present it is called on the texts of the old part with one space between them, which
  begin with the text of that first entry, and what it returns is the new summary; when
  its call raises, or with no client, the new summary is a fixed text and the text of
  the earlier summary is dropped.
\<close>

theorem compaction_folds_whole_log:
  assumes "50 \<le> length (log_of w)"
  shows "\<exists>w'. add_memory e msg w = Inr w'
     \<and> length (log_of w') = 21
     \<and> tl (log_of w') =
         drop (length (log_of w) - 19) (log_of w @ [\<lparr>text = msg, timestamp = now_append e\<rparr>])
     \<and> (\<forall>c. mem0 e = Some c \<longrightarrow>
          text (hd (log_of w')) = ''Summary of past: '' @
            (case mem0_summarize c
                (text (hd (log_of w))
                 @ concat (map (\<lambda>m. CHR '' '' # text m)
                     (tl (take (length (log_of w) - 19) (log_of w)))))
                user_name of
               Inr s \<Rightarrow> s
             | Inl err \<Rightarrow> '' (failed to summarize older memories) ''))
     \<and> (mem0 e = None \<longrightarrow>
          text (hd (log_of w')) = ''Summary of past: Past conversations and interactions'')"
proof -
  let ?old = "take (length (log_of w) - 19) (log_of w)"
  let ?combined = "text (hd (log_of w)) @ concat (map (\<lambda>m. CHR '' '' # text m) (tl ?old))"
  obtain w' where a: "add_memory e msg w = Inr w'" by (simp add: add_memory_eq)
  have l: "log_of w' =
         \<lparr>text = ''Summary of past: '' @
            summary_text (mem0 e) (join '' '' (map text ?old)) user_name,
          timestamp = now_compact e\<rparr>
         # drop (length (log_of w) - 19) (log_of w @ [\<lparr>text = msg, timestamp = now_append e\<rparr>])"
    using log_of_add_memory [OF a] assms
    by (simp add: appended_full summary_entry_def Suc_diff_le)
  from assms have ne: "?old \<noteq> []" by auto
  from assms have hd_old: "hd ?old = hd (log_of w)" by (cases "log_of w") (simp_all add: take_Cons')
  have combined: "join '' '' (map text ?old) = ?combined"
    using join_texts [OF ne, of "'' ''" "text"] by (simp add: hd_old)
  have n: "length (log_of w') = 21" using assms by (simp add: l)
  have t: "tl (log_of w') =
         drop (length (log_of w) - 19) (log_of w @ [\<lparr>text = msg, timestamp = now_append e\<rparr>])"
    by (simp add: l)
  have some: "\<forall>c. mem0 e = Some c \<longrightarrow>
          text (hd (log_of w')) = ''Summary of past: '' @
            (case mem0_summarize c ?combined user_name of
               Inr s \<Rightarrow> s
             | Inl err \<Rightarrow> '' (failed to summarize older memories) '')"
    unfolding l combined by (simp add: summary_text_def)
  have none: "mem0 e = None \<longrightarrow>
          text (hd (log_of w')) = ''Summary of past: Past conversations and interactions''"
    by (simp add: l summary_text_def)
  show ?thesis by (rule exI [of _ w']) (intro conjI a n t some none)
qed

theorem compaction_folds_whole_log_witness:
  "50 \<le> length (log_of jazz_world)
   \<and> (\<exists>w'. add_memory echo_env ''m80'' jazz_world = Inr w'
        \<and> length (log_of w') = 21
        \<and> text (hd (log_of w')) =
            ''Summary of past: Summary of past: likes jazz m31 m32 m33 m34 m35 m36 m37 m38 m39 m40 m41 m42 m43 m44 m45 m46 m47 m48 m49 m50 m51 m52 m53 m54 m55 m56 m57 m58 m59 m60'')"
proof -
  have n: "50 \<le> length (log_of jazz_world)" by (simp add: log_of_jazz_world)
  have old: "tl (take (length (log_of jazz_world) - 19) (log_of jazz_world)) =
      map (\<lambda>i. \<lparr>text = m_text i, timestamp = 2 * i\<rparr>) [31..<61]"
    by (simp add: log_of_jazz_world take_map)
  have combined: "text (hd (log_of jazz_world))
      @ concat (map (\<lambda>m. CHR '' '' # text m)
          (tl (take (length (log_of jazz_world) - 19) (log_of jazz_world)))) =
      ''Summary of past: likes jazz m31 m32 m33 m34 m35 m36 m37 m38 m39 m40 m41 m42 m43 m44 m45 m46 m47 m48 m49 m50 m51 m52 m53 m54 m55 m56 m57 m58 m59 m60''"
    unfolding old using spaced_m_texts_31_60 by (simp add: log_of_jazz_world o_def)
  from compaction_folds_whole_log [OF n, of echo_env "''m80''"]
  obtain w' where a: "add_memory echo_env ''m80'' jazz_world = Inr w'"
    and len: "length (log_of w') = 21"
    and s: "\<forall>c. mem0 echo_env = Some c \<longrightarrow>
          text (hd (log_of w')) = ''Summary of past: '' @
            (case mem0_summarize c
                (text (hd (log_of jazz_world))
                 @ concat (map (\<lambda>m. CHR '' '' # text m)
                     (tl (take (length (log_of jazz_world) - 19) (log_of jazz_world)))))
                user_name of
               Inr s \<Rightarrow> s
             | Inl err \<Rightarrow> '' (failed to summarize older memories) '')"
    by blast
  have "mem0 echo_env = Some echo_client" by (simp add: echo_env_def)
  with s have "text (hd (log_of w')) = ''Summary of past: '' @
            (case mem0_summarize echo_client
                (text (hd (log_of jazz_world))
                 @ concat (map (\<lambda>m. CHR '' '' # text m)
                     (tl (take (length (log_of jazz_world) - 19) (log_of jazz_world)))))
                user_name of
               Inr s \<Rightarrow> s
             | Inl err \<Rightarrow> '' (failed to summarize older memories) '')"
    by blast
  then have t: "text (hd (log_of w')) =
      ''Summary of past: Summary of past: likes jazz m31 m32 m33 m34 m35 m36 m37 m38 m39 m40 m41 m42 m43 m44 m45 m46 m47 m48 m49 m50 m51 m52 m53 m54 m55 m56 m57 m58 m59 m60''"
    unfolding combined by (simp add: echo_client_def)
  show ?thesis by (intro conjI n exI [of _ w'] a len t)
qed

text \<open>
  C10 as it was stated fails with no client: a log of 50 entries headed by the summary
  \<^verbatim>\<open>Summary of past: likes jazz\<close> compacts to the fixed summary and the entries
  \<^verbatim>\<open>m61\<close> to \<^verbatim>\<open>m80\<close>; the earlier summary is in none of them.
\<close>

theorem earlier_summary_dropped_counterexample:
  "text (hd (log_of jazz_world)) = ''Summary of past: likes jazz''
   \<and> length (log_of jazz_world) = 50
   \<and> (\<exists>w'. add_memory (tick_env 80) ''m80'' jazz_world = Inr w'
        \<and> map text (log_of w') =
            [''Summary of past: Past conversations and interactions'',
             ''m61'', ''m62'', ''m63'', ''m64'', ''m65'', ''m66'', ''m67'', ''m68'', ''m69'', ''m70'',
             ''m71'', ''m72'', ''m73'', ''m74'', ''m75'', ''m76'', ''m77'', ''m78'', ''m79'', ''m80''])
   \<and> \<not> sublist ''likes jazz'' ''Summary of past: Past conversations and interactions''"
proof -
  have h: "text (hd (log_of jazz_world)) = ''Summary of past: likes jazz''"
    by (simp add: log_of_jazz_world)
  have n: "length (log_of jazz_world) = 50" by (simp add: log_of_jazz_world)
  obtain w' where a: "add_memory (tick_env 80) ''m80'' jazz_world = Inr w'"
    by (simp add: add_memory_eq)
  have "log_of w' = appended (tick_env 80) ''m80'' (log_of jazz_world)"
    by (rule log_of_add_memory [OF a])
  then have "map text (log_of w') =
      ''Summary of past: Past conversations and interactions'' # map m_text [61..<80] @ [''m80'']"
    using n by (simp add: appended_full summary_entry_def summary_text_def tick_env_def
        log_of_jazz_world drop_map o_def)
  then have m: "map text (log_of w') =
            [''Summary of past: Past conversations and interactions'',
             ''m61'', ''m62'', ''m63'', ''m64'', ''m65'', ''m66'', ''m67'', ''m68'', ''m69'', ''m70'',
             ''m71'', ''m72'', ''m73'', ''m74'', ''m75'', ''m76'', ''m77'', ''m78'', ''m79'', ''m80'']"
    unfolding m_texts_61_79 by simp
  show ?thesis by (intro conjI h n exI [of _ w'] a m jazz_lacks)
qed

end
